theory Spec2Isabelle
  imports Main "HOL-Library.Sublist"
begin

section \<open>Python values, exceptions and effects\<close>

text \<open>
  The module \<^verbatim>\<open>csae_pyutils/__init__.py\<close> has three functions, each a thin wrapper
  around calls into the outside world (the file system, an HTTP server, an ownCloud
  server). Python strings and byte strings are modelled as \<open>string\<close>. An exception
  is a value of \<open>py_exception\<close>; a call that may raise returns \<open>py_exception + 'a\<close>
  with \<open>Inl\<close> for the raised exception.
\<close>

datatype py_exception =
    FileNotFoundError
  | PermissionError
  | LookupError
  | UnicodeDecodeError
  | JSONDecodeError
  | EmptyDataError
  | ParserError
  | UnboundLocalError
  | RequestException string
  | HTTPResponseError nat
  | OtherException string

text \<open>
  Every call that leaves the process is recorded, in program order, in a trace of
  events. \<open>Client\<close>, \<open>Login\<close>, \<open>Mkdir\<close>, \<open>PutFile\<close> and \<open>Delete\<close> are operations
  of the ownCloud client library (the module calls the first four only), \<open>HttpGet\<close>
  is \<^verbatim>\<open>requests.get\<close> and \<open>Print\<close> is a line written by \<^verbatim>\<open>print\<close>.
\<close>

datatype event =
    Client string
  | Login string string
  | Mkdir string
  | PutFile string string
  | Delete string
  | HttpGet string
  | Print string

text \<open>
  The ownCloud server and the network between it and the client are not part of the
  program: they are a parameter. A \<open>remote\<close> answers a call, given everything that
  happened before it, with an exception or with the call's return value.
\<close>

type_synonym 'r remote = "event list \<Rightarrow> event \<Rightarrow> py_exception + 'r"

section \<open>\<^verbatim>\<open>os.path.split\<close> (POSIX)\<close>

text \<open>
  \<^verbatim>\<open>
  def split(p):
      sep = '/'
      i = p.rfind(sep) + 1
      head, tail = p[:i], p[i:]
      if head and head != sep*len(head):
          head = head.rstrip(sep)
      return head, tail
  \<close>
\<close>

definition rfind :: "char \<Rightarrow> string \<Rightarrow> int" where
  "rfind c s =
     (if c \<in> set s then int (length s) - 1 - int (length (takeWhile (\<lambda>d. d \<noteq> c) (rev s)))
      else - 1)"

definition rstrip :: "char \<Rightarrow> string \<Rightarrow> string" where
  "rstrip c s = rev (dropWhile (\<lambda>d. d = c) (rev s))"

definition os_path_split :: "string \<Rightarrow> string \<times> string" where
  "os_path_split p =
     (let i = nat (rfind (CHR ''/'') p + 1);
          head = take i p;
          tail = drop i p
      in (if head \<noteq> [] \<and> head \<noteq> replicate (length head) (CHR ''/'')
          then rstrip (CHR ''/'') head else head, tail))"

section \<open>\<^verbatim>\<open>upload_files_to_owncloud\<close>\<close>

text \<open>
  \<^verbatim>\<open>
  def upload_files_to_owncloud(file_list, user, pw, folder="pfp-data"):
      collection = folder
      oc = owncloud.Client("https://oeawcloud.oeaw.ac.at")
      oc.login(user, pw)
      try:
          oc.mkdir(collection)
      except:
          pass
      files = file_list
      for x in files:
          _, tail = os.path.split(x)
          owncloud_name = f"{collection}/{tail}"
          print(f"uploading {tail} to {owncloud_name}")
          result = oc.put_file(owncloud_name, x)
      return result
  \<close>
  The local variable \<open>result\<close> is unbound until the loop body has run once: it is an
  \<open>option\<close>, and \<^verbatim>\<open>return result\<close> on \<open>None\<close> raises \<open>UnboundLocalError\<close>.
\<close>

definition owncloud_name :: "string \<Rightarrow> string \<Rightarrow> string" where
  "owncloud_name collection x = collection @ ''/'' @ snd (os_path_split x)"

definition uploading :: "string \<Rightarrow> string \<Rightarrow> string" where
  "uploading collection x =
     ''uploading '' @ snd (os_path_split x) @ '' to '' @ owncloud_name collection x"

fun for_x_in_files ::
  "'r remote \<Rightarrow> string \<Rightarrow> string list \<Rightarrow> event list \<Rightarrow> 'r option
    \<Rightarrow> event list \<times> (py_exception + 'r option)" where
  "for_x_in_files oc collection [] t result = (t, Inr result)"
| "for_x_in_files oc collection (x # files) t result =
     (let t1 = t @ [Print (uploading collection x)];
          call = PutFile (owncloud_name collection x) x
      in case oc t1 call of
           Inl e \<Rightarrow> (t1 @ [call], Inl e)
         | Inr r \<Rightarrow> for_x_in_files oc collection files (t1 @ [call]) (Some r))"

definition upload_files_to_owncloud ::
  "'r remote \<Rightarrow> string list \<Rightarrow> string \<Rightarrow> string \<Rightarrow> string
    \<Rightarrow> event list \<times> (py_exception + 'r)" where
  "upload_files_to_owncloud oc file_list user pw folder =
     (let collection = folder;
          t0 = [Client ''https://oeawcloud.oeaw.ac.at'']
      in case oc t0 (Login user pw) of
           Inl e \<Rightarrow> (t0 @ [Login user pw], Inl e)
         | Inr _ \<Rightarrow>
            (let t1 = t0 @ [Login user pw];
                 t2 = (case oc t1 (Mkdir collection) of
                         Inl _ \<Rightarrow> t1 @ [Mkdir collection]
                       | Inr _ \<Rightarrow> t1 @ [Mkdir collection])
             in case for_x_in_files oc collection file_list t2 None of
                  (t, Inl e) \<Rightarrow> (t, Inl e)
                | (t, Inr None) \<Rightarrow> (t, Inl UnboundLocalError)
                | (t, Inr (Some result)) \<Rightarrow> (t, Inr result)))"

text \<open>The events before the first file is handled, when the login has succeeded.\<close>

definition session :: "string \<Rightarrow> string \<Rightarrow> string \<Rightarrow> event list" where
  "session user pw folder =
     [Client ''https://oeawcloud.oeaw.ac.at'', Login user pw, Mkdir folder]"

text \<open>The two events of one pass through the loop body.\<close>

definition put_events :: "string \<Rightarrow> string \<Rightarrow> event list" where
  "put_events collection x =
     [Print (uploading collection x), PutFile (owncloud_name collection x) x]"

text \<open>
  The answer of the remote to the put of the file at position \<open>j\<close>, when the trace
  before the loop was \<open>t\<close> and the files before \<open>j\<close> have been put.
\<close>

definition put_answer ::
  "'r remote \<Rightarrow> string \<Rightarrow> string list \<Rightarrow> event list \<Rightarrow> nat \<Rightarrow> py_exception + 'r" where
  "put_answer oc collection files t j =
     oc (t @ concat (map (put_events collection) (take j files))
           @ [Print (uploading collection (files ! j))])
        (PutFile (owncloud_name collection (files ! j)) (files ! j))"

definition is_put :: "event \<Rightarrow> bool" where
  "is_put ev = (case ev of PutFile _ _ \<Rightarrow> True | _ \<Rightarrow> False)"

definition is_delete :: "event \<Rightarrow> bool" where
  "is_delete ev = (case ev of Delete _ \<Rightarrow> True | _ \<Rightarrow> False)"

section \<open>\<^verbatim>\<open>gsheet_to_df\<close>\<close>

text \<open>
  \<^verbatim>\<open>
  def gsheet_to_df(sheet_id):
      GDRIVE_BASE_URL = "https://docs.google.com/spreadsheet/ccc?key="
      url = f"{GDRIVE_BASE_URL}{sheet_id}&output=csv"
      r = requests.get(url)
      print(r.status_code)
      data = r.content
      df = pd.read_csv(BytesIO(data))
      return df
  \<close>
  The network is a parameter: it answers a GET of a URL with an exception (a
  transport failure) or with a response, of which the function reads the status code
  and the body.
\<close>

record response =
  status_code :: nat
  content :: string

type_synonym network = "string \<Rightarrow> py_exception + response"

text \<open>\<^verbatim>\<open>str\<close> of a non-negative integer, as \<^verbatim>\<open>print\<close> writes it.\<close>

fun str_nat :: "nat \<Rightarrow> string" where
  "str_nat n =
     (if n < 10 then [char_of (48 + n)]
      else str_nat (n div 10) @ [char_of (48 + n mod 10)])"

declare str_nat.simps [simp del]

subsection \<open>\<^verbatim>\<open>pandas.read_csv\<close> on plain bodies\<close>

text \<open>
  A data frame has column labels and rows of cells; the cell at position \<open>k\<close> of a
  row belongs to the column at position \<open>k\<close>.
\<close>

datatype cell = CInt int | CFloat string | CBool bool | CStr string | CNaN

record dataframe =
  columns :: "string list"
  rows :: "cell list list"

text \<open>\<^verbatim>\<open>df.to_dict("records")\<close>: each row as a mapping from column label to cell.\<close>

definition to_records :: "dataframe \<Rightarrow> (string \<times> cell) list list" where
  "to_records df = map (\<lambda>r. zip (columns df) r) (rows df)"

abbreviation NL :: char where
  "NL \<equiv> CHR 0x0A"

text \<open>\<^verbatim>\<open>s.split(c)\<close> for a one-character separator.\<close>

fun split_on :: "char \<Rightarrow> string \<Rightarrow> string list" where
  "split_on c [] = [[]]"
| "split_on c (d # s) =
     (if d = c then [] # split_on c s
      else (case split_on c s of f # fs \<Rightarrow> (d # f) # fs | [] \<Rightarrow> [[d]]))"


text \<open>The lines of a body; the newline that ends the last line opens no further line.\<close>

definition csv_lines :: "string \<Rightarrow> string list" where
  "csv_lines body = (let ls = split_on NL body in if last ls = [] then butlast ls else ls)"

text \<open>
  A plain field is a non-empty run of visible ASCII characters other than the
  separator and the quote character.
\<close>

definition plain_char :: "char \<Rightarrow> bool" where
  "plain_char c \<longleftrightarrow>
     33 \<le> (of_char c :: nat) \<and> (of_char c :: nat) \<le> 126 \<and> c \<noteq> CHR '','' \<and> c \<noteq> CHR 0x22"

definition plain_name :: "string \<Rightarrow> bool" where
  "plain_name f \<longleftrightarrow> f \<noteq> [] \<and> list_all plain_char f"

text \<open>
  A plain integer is an optional minus sign and one to eighteen decimal digits with no
  leading zero: it fits a signed 64-bit integer.
\<close>

definition is_digit :: "char \<Rightarrow> bool" where
  "is_digit c \<longleftrightarrow> 48 \<le> (of_char c :: nat) \<and> (of_char c :: nat) \<le> 57"

definition plain_digits :: "string \<Rightarrow> bool" where
  "plain_digits ds \<longleftrightarrow>
     ds \<noteq> [] \<and> length ds \<le> 18 \<and> list_all is_digit ds \<and> (ds = ''0'' \<or> hd ds \<noteq> CHR ''0'')"

definition plain_int :: "string \<Rightarrow> bool" where
  "plain_int f = (case f of c # ds \<Rightarrow> if c = CHR ''-'' then plain_digits ds else plain_digits f
                  | [] \<Rightarrow> False)"

definition digits_value :: "string \<Rightarrow> int" where
  "digits_value ds = foldl (\<lambda>n c. 10 * n + (int (of_char c) - 48)) 0 ds"

definition int_value :: "string \<Rightarrow> int" where
  "int_value f = (case f of c # ds \<Rightarrow> if c = CHR ''-'' then - digits_value ds else digits_value f
                  | [] \<Rightarrow> 0)"

text \<open>
  A plain body is empty, or a header line of distinct plain names followed by lines
  that each have one plain integer per column.
\<close>

definition plain_csv :: "string \<Rightarrow> bool" where
  "plain_csv body =
     (case csv_lines body of
        [] \<Rightarrow> True
      | header # data \<Rightarrow>
          (let names = split_on (CHR '','') header
           in list_all plain_name names \<and> distinct names \<and>
              list_all (\<lambda>line. let fields = split_on (CHR '','') line
                               in length fields = length names \<and> list_all plain_int fields)
                data))"

text \<open>
  \<^verbatim>\<open>pd.read_csv(BytesIO(data))\<close> with the default options. On a plain body the
  parser's result is written out: no line at all raises \<open>EmptyDataError\<close> (no columns
  to parse); otherwise the first line gives the column labels, every further line is
  one row, in order, and a column of integers is typed as integers. On any other body
  (quoting, blank lines, carriage returns, ragged rows, repeated or empty labels,
  cells that are not plain integers, bytes outside ASCII) the result is what the
  library makes of it, the parameter \<open>pd\<close>.
\<close>

definition read_csv ::
  "(string \<Rightarrow> py_exception + dataframe) \<Rightarrow> string \<Rightarrow> py_exception + dataframe" where
  "read_csv pd body =
     (if plain_csv body then
        (case csv_lines body of
           [] \<Rightarrow> Inl EmptyDataError
         | header # data \<Rightarrow>
             Inr \<lparr>columns = split_on (CHR '','') header,
                  rows = map (\<lambda>line. map (\<lambda>f. CInt (int_value f)) (split_on (CHR '','') line))
                           data\<rparr>)
      else pd body)"

subsection \<open>The function\<close>

definition gsheet_to_df ::
  "network \<Rightarrow> (string \<Rightarrow> py_exception + dataframe) \<Rightarrow> string
    \<Rightarrow> event list \<times> (py_exception + dataframe)" where
  "gsheet_to_df net pd sheet_id =
     (let GDRIVE_BASE_URL = ''https://docs.google.com/spreadsheet/ccc?key='';
          url = GDRIVE_BASE_URL @ sheet_id @ ''&output=csv''
      in case net url of
           Inl e \<Rightarrow> ([HttpGet url], Inl e)
         | Inr r \<Rightarrow>
             ([HttpGet url, Print (str_nat (status_code r))], read_csv pd (content r)))"

definition is_get :: "event \<Rightarrow> bool" where
  "is_get ev = (case ev of HttpGet _ \<Rightarrow> True | _ \<Rightarrow> False)"

section \<open>\<^verbatim>\<open>load_json\<close>\<close>

text \<open>
  \<^verbatim>\<open>
  def load_json(file_path, encoding="utf-8"):
      with open(file_path, "r", encoding=encoding) as fp:
          data = json.load(fp)
      return data
  \<close>
  A JSON value as Python holds it: a \<^verbatim>\<open>dict\<close> keeps its keys in insertion order, so
  it is a list of pairs with distinct keys.
\<close>

datatype json =
    JNull
  | JBool bool
  | JInt int
  | JFloat string
  | JStr string
  | JList "json list"
  | JDict "(string \<times> json) list"

subsection \<open>\<^verbatim>\<open>json.loads\<close>\<close>

text \<open>
  The decoder of the standard library (\<^verbatim>\<open>json.decoder\<close>, \<^verbatim>\<open>json.scanner\<close>) is
  written out for texts without backslash escapes, floating-point numbers and
  integers of more than eighteen digits, nested at most a hundred deep. Scanning a
  value at the start of a text gives the value and the rest of the text
  (\<open>Value\<close>), or fails as the library does with \<^verbatim>\<open>JSONDecodeError\<close> (\<open>Invalid\<close>), or
  meets one of the features left out (\<open>Unmodelled\<close>); in the last case the result
  of \<^verbatim>\<open>json.loads\<close> is what the library makes of the text, a parameter.
\<close>

datatype 'a scan = Value 'a string | Invalid | Unmodelled

text \<open>Whitespace is space, tab, line feed and carriage return.\<close>

definition is_ws :: "char \<Rightarrow> bool" where
  "is_ws c \<longleftrightarrow> c = CHR '' '' \<or> c = CHR 0x09 \<or> c = CHR 0x0A \<or> c = CHR 0x0D"

definition skip_ws :: "string \<Rightarrow> string" where
  "skip_ws s = dropWhile is_ws s"

text \<open>
  \<^verbatim>\<open>scanstring\<close>, after the opening quote: the text up to the next quote; a
  control character is refused (strict mode), a backslash is left to the library.
\<close>

fun scanstring :: "string \<Rightarrow> string scan" where
  "scanstring [] = Invalid"
| "scanstring (c # s) =
     (if c = CHR 0x22 then Value [] s
      else if c = CHR 0x5C then Unmodelled
      else if (of_char c :: nat) < 32 then Invalid
      else (case scanstring s of
              Value t r \<Rightarrow> Value (c # t) r
            | Invalid \<Rightarrow> Invalid
            | Unmodelled \<Rightarrow> Unmodelled))"

text \<open>
  Numbers match \<^verbatim>\<open>(-?(?:0|[1-9]\d*))(\.\d+)?([eE][-+]?\d+)?\<close>; with a fraction or
  an exponent the number is a float.
\<close>

definition is_float :: "string \<Rightarrow> bool" where
  "is_float rest =
     (case rest of
        c # d # r \<Rightarrow>
          (c = CHR ''.'' \<and> is_digit d)
          \<or> ((c = CHR ''e'' \<or> c = CHR ''E'')
              \<and> (is_digit d
                  \<or> ((d = CHR ''+'' \<or> d = CHR ''-'') \<and> (case r of x # _ \<Rightarrow> is_digit x | [] \<Rightarrow> False))))
      | _ \<Rightarrow> False)"

definition number :: "bool \<Rightarrow> string \<Rightarrow> string \<Rightarrow> json scan" where
  "number neg ds rest =
     (if is_float rest \<or> 18 < length ds then Unmodelled
      else Value (JInt (if neg then - digits_value ds else digits_value ds)) rest)"

definition match_number :: "string \<Rightarrow> json scan option" where
  "match_number s =
     (let neg = (case s of c # _ \<Rightarrow> c = CHR ''-'' | [] \<Rightarrow> False);
          u = (if neg then tl s else s)
      in case u of
           [] \<Rightarrow> None
         | c # r \<Rightarrow>
             if c = CHR ''0'' then Some (number neg ''0'' r)
             else if is_digit c
               then Some (number neg (c # takeWhile is_digit r) (dropWhile is_digit r))
             else None)"

definition is_constant :: "string \<Rightarrow> bool" where
  "is_constant s \<longleftrightarrow> take 3 s = ''NaN'' \<or> take 8 s = ''Infinity'' \<or> take 9 s = ''-Infinity''"

text \<open>
  \<^verbatim>\<open>dict(pairs)\<close>: a key that comes again keeps its place and takes the new value.
\<close>

fun dict_set :: "(string \<times> json) list \<Rightarrow> string \<Rightarrow> json \<Rightarrow> (string \<times> json) list" where
  "dict_set [] k v = [(k, v)]"
| "dict_set ((k', v') # m) k v = (if k' = k then (k, v) # m else (k', v') # dict_set m k v)"

definition py_dict :: "(string \<times> json) list \<Rightarrow> (string \<times> json) list" where
  "py_dict pairs = foldl (\<lambda>m (k, v). dict_set m k v) [] pairs"

text \<open>
  \<^verbatim>\<open>scan_once\<close> with \<^verbatim>\<open>JSONArray\<close> and \<^verbatim>\<open>JSONObject\<close>. The first argument
  bounds the number of calls and the second the depth of nesting; \<open>JSONArray\<close> is
  entered at the start of an element and \<open>JSONObject\<close> at the start of a member,
  with the elements and members read so far.
\<close>

fun scan_once :: "nat \<Rightarrow> nat \<Rightarrow> string \<Rightarrow> json scan"
  and JSONArray :: "nat \<Rightarrow> nat \<Rightarrow> json list \<Rightarrow> string \<Rightarrow> json scan"
  and JSONObject :: "nat \<Rightarrow> nat \<Rightarrow> (string \<times> json) list \<Rightarrow> string \<Rightarrow> json scan" where
  "scan_once 0 d s = Unmodelled"
| "scan_once (Suc n) d [] = Invalid"
| "scan_once (Suc n) d (c # s) =
     (if c = CHR 0x22 then
        (case scanstring s of
           Value t r \<Rightarrow> Value (JStr t) r
         | Invalid \<Rightarrow> Invalid
         | Unmodelled \<Rightarrow> Unmodelled)
      else if c = CHR ''{'' then
        (case d of
           0 \<Rightarrow> Unmodelled
         | Suc d' \<Rightarrow>
             (case skip_ws s of
                [] \<Rightarrow> Invalid
              | x # r \<Rightarrow> if x = CHR ''}'' then Value (JDict []) r
                         else JSONObject n d' [] (x # r)))
      else if c = CHR ''['' then
        (case d of
           0 \<Rightarrow> Unmodelled
         | Suc d' \<Rightarrow>
             (case skip_ws s of
                [] \<Rightarrow> Invalid
              | x # r \<Rightarrow> if x = CHR '']'' then Value (JList []) r
                         else JSONArray n d' [] (x # r)))
      else if take 4 (c # s) = ''null'' then Value JNull (drop 3 s)
      else if take 4 (c # s) = ''true'' then Value (JBool True) (drop 3 s)
      else if take 5 (c # s) = ''false'' then Value (JBool False) (drop 4 s)
      else (case match_number (c # s) of
              Some r \<Rightarrow> r
            | None \<Rightarrow> if is_constant (c # s) then Unmodelled else Invalid))"
| "JSONArray 0 d acc s = Unmodelled"
| "JSONArray (Suc n) d acc s =
     (case scan_once n d s of
        Value v r \<Rightarrow>
          (case skip_ws r of
             [] \<Rightarrow> Invalid
           | x # r' \<Rightarrow>
               if x = CHR '']'' then Value (JList (acc @ [v])) r'
               else if x = CHR '','' then JSONArray n d (acc @ [v]) (skip_ws r')
               else Invalid)
      | Invalid \<Rightarrow> Invalid
      | Unmodelled \<Rightarrow> Unmodelled)"
| "JSONObject 0 d acc s = Unmodelled"
| "JSONObject (Suc n) d acc s =
     (case s of
        [] \<Rightarrow> Invalid
      | q # s0 \<Rightarrow>
          if q \<noteq> CHR 0x22 then Invalid
          else
            (case scanstring s0 of
               Value key r \<Rightarrow>
                 (case skip_ws r of
                    [] \<Rightarrow> Invalid
                  | x # r1 \<Rightarrow>
                      if x \<noteq> CHR '':'' then Invalid
                      else
                        (case scan_once n d (skip_ws r1) of
                           Value v r2 \<Rightarrow>
                             (case skip_ws r2 of
                                [] \<Rightarrow> Invalid
                              | y # r3 \<Rightarrow>
                                  if y = CHR ''}'' then Value (JDict (py_dict (acc @ [(key, v)]))) r3
                                  else if y = CHR '','' then
                                    JSONObject n d (acc @ [(key, v)]) (skip_ws r3)
                                  else Invalid)
                         | Invalid \<Rightarrow> Invalid
                         | Unmodelled \<Rightarrow> Unmodelled))
             | Invalid \<Rightarrow> Invalid
             | Unmodelled \<Rightarrow> Unmodelled))"

text \<open>
  \<^verbatim>\<open>JSONDecoder.decode\<close>: whitespace, one value, whitespace, and nothing more
  (\<^verbatim>\<open>Extra data\<close> otherwise).
\<close>

definition decode :: "string \<Rightarrow> json scan" where
  "decode s =
     (case scan_once (2 * length s + 2) 100 (skip_ws s) of
        Value v r \<Rightarrow> if skip_ws r = [] then Value v [] else Invalid
      | Invalid \<Rightarrow> Invalid
      | Unmodelled \<Rightarrow> Unmodelled)"

definition json_loads :: "(string \<Rightarrow> py_exception + json) \<Rightarrow> string \<Rightarrow> py_exception + json" where
  "json_loads lib s =
     (case decode s of
        Value v _ \<Rightarrow> Inr v
      | Invalid \<Rightarrow> Inl JSONDecodeError
      | Unmodelled \<Rightarrow> lib s)"

subsection \<open>Files\<close>




subsection \<open>The function\<close>


subsection \<open>The text of a plain document\<close>

text \<open>
  A plain document is a mapping with distinct keys whose keys and string values have
  no quote, backslash or control character and whose other values are \<^verbatim>\<open>null\<close>,
  \<^verbatim>\<open>true\<close>, \<^verbatim>\<open>false\<close> and integers below \<open>10\<^sup>1\<^sup>8\<close> in absolute value. Its text is
  written the way \<^verbatim>\<open>json.dumps\<close> separates members and keys from values; \<open>str_int\<close>
  is \<^verbatim>\<open>str\<close> of an integer.
\<close>

definition quote :: "string \<Rightarrow> string" where
  "quote s = CHR 0x22 # s @ [CHR 0x22]"

definition str_int :: "int \<Rightarrow> string" where
  "str_int i = (if i < 0 then CHR ''-'' # str_nat (nat (- i)) else str_nat (nat i))"

fun dumps_scalar :: "json \<Rightarrow> string" where
  "dumps_scalar JNull = ''null''"
| "dumps_scalar (JBool b) = (if b then ''true'' else ''false'')"
| "dumps_scalar (JInt i) = str_int i"
| "dumps_scalar (JStr s) = quote s"
| "dumps_scalar (JFloat x) = []"
| "dumps_scalar (JList vs) = []"
| "dumps_scalar (JDict ms) = []"

definition plain_text :: "string \<Rightarrow> bool" where
  "plain_text s = list_all (\<lambda>c. 32 \<le> (of_char c :: nat) \<and> c \<noteq> CHR 0x22 \<and> c \<noteq> CHR 0x5C) s"

fun scalar :: "json \<Rightarrow> bool" where
  "scalar JNull = True"
| "scalar (JBool b) = True"
| "scalar (JInt i) = (\<bar>i\<bar> < 10 ^ 18)"
| "scalar (JStr s) = plain_text s"
| "scalar (JFloat x) = False"
| "scalar (JList vs) = False"
| "scalar (JDict ms) = False"

definition member_text :: "string \<times> json \<Rightarrow> string" where
  "member_text m = quote (fst m) @ '': '' @ dumps_scalar (snd m)"

fun members_text :: "(string \<times> json) list \<Rightarrow> string" where
  "members_text [] = []"
| "members_text [m] = member_text m"
| "members_text (m # m' # ms) = member_text m @ '', '' @ members_text (m' # ms)"

definition document_text :: "(string \<times> json) list \<Rightarrow> string" where
  "document_text ms = ''{'' @ members_text ms @ ''}''"

definition plain_document :: "(string \<times> json) list \<Rightarrow> bool" where
  "plain_document ms \<longleftrightarrow>
     distinct (map fst ms) \<and> list_all (\<lambda>m. plain_text (fst m) \<and> scalar (snd m)) ms"



text \<open>What follows a member's value in a text: a comma or the closing brace.\<close>

definition closes :: "string \<Rightarrow> bool" where
  "closes r \<longleftrightarrow> (case r of c # _ \<Rightarrow> c = CHR '','' \<or> c = CHR ''}'' | [] \<Rightarrow> False)"

section \<open>Error categories\<close>




section \<open>Examples\<close>

text \<open>
  Four servers to run the upload against: one whose storage is full when the second
  file arrives, one that answers every call with the number of events before it, one
  on which the collection exists already, and one that rejects the credentials.
\<close>

definition full_disk :: "bool remote" where
  "full_disk t c =
     (if c = PutFile ''pfp-data/b.txt'' ''/tmp/b.txt'' then Inl (HTTPResponseError 507) else Inr True)"

definition counting :: "nat remote" where
  "counting t c = Inr (length t)"

definition existing_folder :: "bool remote" where
  "existing_folder t c = (case c of Mkdir _ \<Rightarrow> Inl (HTTPResponseError 405) | _ \<Rightarrow> Inr True)"

definition bad_password :: "bool remote" where
  "bad_password t c = (case c of Login _ _ \<Rightarrow> Inl (HTTPResponseError 401) | _ \<Rightarrow> Inr True)"

text \<open>
  A server that answers every GET with an error page, and a stand-in for the parser
  outside plain bodies.
\<close>

definition error_page :: network where
  "error_page url = Inr \<lparr>status_code = 404, content = ''<html>404</html>''\<rparr>"

definition no_pandas :: "string \<Rightarrow> py_exception + dataframe" where
  "no_pandas body = Inl (OtherException ''not a plain body'')"





section \<open>Properties of the upload\<close>

lemma put_answer_0:
  "put_answer oc c (x # xs) t 0 = oc (t @ [Print (uploading c x)]) (PutFile (owncloud_name c x) x)"
  by (simp add: put_answer_def)

lemma put_answer_Suc:
  "put_answer oc c (x # xs) t (Suc j) = put_answer oc c xs (t @ put_events c x) j"
  by (simp add: put_answer_def)

lemma upload_login_ok:
  assumes "oc [Client ''https://oeawcloud.oeaw.ac.at''] (Login user pw) = Inr r0"
  shows "upload_files_to_owncloud oc files user pw folder =
     (case for_x_in_files oc folder files (session user pw folder) None of
        (t, Inl e) \<Rightarrow> (t, Inl e)
      | (t, Inr None) \<Rightarrow> (t, Inl UnboundLocalError)
      | (t, Inr (Some result)) \<Rightarrow> (t, Inr result))"
  using assms
  by (simp add: upload_files_to_owncloud_def session_def Let_def split: sum.splits)

lemma loop_all_ok:
  assumes "\<forall>j<length xs. \<exists>r. put_answer oc c xs t j = Inr r"
    and "xs \<noteq> []"
    and "put_answer oc c xs t (length xs - 1) = Inr r"
  shows "for_x_in_files oc c xs t res = (t @ concat (map (put_events c) xs), Inr (Some r))"
  using assms
proof (induction xs arbitrary: t res)
  case Nil
  then show ?case by simp
next
  case (Cons x xs)
  from Cons.prems(1) obtain r0 where r0: "put_answer oc c (x # xs) t 0 = Inr r0"
    by auto
  then have step: "for_x_in_files oc c (x # xs) t res =
      for_x_in_files oc c xs (t @ put_events c x) (Some r0)"
    by (simp add: put_answer_0 put_events_def Let_def)
  show ?case
  proof (cases "xs = []")
    case True
    with Cons.prems(3) r0 have "r = r0" by simp
    with True step show ?thesis by simp
  next
    case False
    have a: "\<forall>j<length xs. \<exists>r. put_answer oc c xs (t @ put_events c x) j = Inr r"
      using Cons.prems(1) by (auto simp: put_answer_Suc [symmetric])
    obtain n where n: "length xs = Suc n" using False by (cases xs) auto
    have b: "put_answer oc c xs (t @ put_events c x) (length xs - 1) = Inr r"
      using Cons.prems(3) by (simp add: n put_answer_Suc)
    from Cons.IH [OF a False b] step show ?thesis by simp
  qed
qed

lemma loop_fail:
  assumes "i < length xs"
    and "\<forall>j<i. \<exists>r. put_answer oc c xs t j = Inr r"
    and "put_answer oc c xs t i = Inl e"
  shows "for_x_in_files oc c xs t res =
           (t @ concat (map (put_events c) (take (Suc i) xs)), Inl e)"
  using assms
proof (induction xs arbitrary: t res i)
  case Nil
  then show ?case by simp
next
  case (Cons x xs)
  show ?case
  proof (cases i)
    case 0
    with Cons.prems(3) show ?thesis
      by (simp add: put_answer_0 put_events_def Let_def)
  next
    case (Suc k)
    with Cons.prems(2) obtain r0 where r0: "put_answer oc c (x # xs) t 0 = Inr r0"
      by auto
    then have step: "for_x_in_files oc c (x # xs) t res =
        for_x_in_files oc c xs (t @ put_events c x) (Some r0)"
      by (simp add: put_answer_0 put_events_def Let_def)
    have k: "k < length xs" using Cons.prems(1) Suc by simp
    have a: "\<forall>j<k. \<exists>r. put_answer oc c xs (t @ put_events c x) j = Inr r"
      using Cons.prems(2) Suc by (auto simp: put_answer_Suc [symmetric])
    have b: "put_answer oc c xs (t @ put_events c x) k = Inl e"
      using Cons.prems(3) Suc by (simp add: put_answer_Suc)
    from Cons.IH [OF k a b] step Suc show ?thesis by simp
  qed
qed

lemma filter_put_events:
  "filter is_put (concat (map (put_events c) xs)) = map (\<lambda>x. PutFile (owncloud_name c x) x) xs"
  by (induction xs) (simp_all add: put_events_def is_put_def)

lemma filter_put_session: "filter is_put (session u p f) = []"
  by (simp add: session_def is_put_def)

lemma no_delete_put_events: "\<not> list_ex is_delete (concat (map (put_events c) xs))"
  by (induction xs) (simp_all add: put_events_def is_delete_def)

lemma no_delete_session: "\<not> list_ex is_delete (session u p f)"
  by (simp add: session_def is_delete_def)

lemma snd_os_path_split:
  "snd (os_path_split p) = rev (takeWhile (\<lambda>d. d \<noteq> CHR ''/'') (rev p))"
proof (cases "CHR ''/'' \<in> set p")
  case False
  then have h: "takeWhile (\<lambda>d. d \<noteq> CHR ''/'') (rev p) = rev p"
    by (auto simp add: takeWhile_eq_all_conv)
  show ?thesis using False by (simp add: os_path_split_def rfind_def Let_def h)
next
  case True
  then have "CHR ''/'' \<in> set (rev p)" by simp
  from split_list_first [OF this]
  obtain ys zs where yz: "rev p = ys @ CHR ''/'' # zs" "CHR ''/'' \<notin> set ys"
    by blast
  have w: "takeWhile (\<lambda>d. d \<noteq> CHR ''/'') (rev p) = ys"
    using yz by (auto simp add: takeWhile_tail)
  have "p = rev (rev p)" by simp
  also have "\<dots> = rev zs @ CHR ''/'' # rev ys" by (simp only: yz(1)) simp
  finally have p: "p = (rev zs @ [CHR ''/'']) @ rev ys" by simp
  have len: "length p = length zs + 1 + length ys"
    by (subst p) simp
  have i: "nat (rfind (CHR ''/'') p + 1) = length (rev zs @ [CHR ''/''])"
    using True len by (simp add: rfind_def w)
  have "drop (length (rev zs @ [CHR ''/''])) p = rev ys"
    by (subst p) (simp only: append_eq_conv_conj drop_append length_append drop_all, simp)
  then show ?thesis by (simp add: os_path_split_def Let_def i w del: length_append)
qed

lemma os_path_split_tail:
  "\<exists>d. p = d @ snd (os_path_split p) \<and> CHR ''/'' \<notin> set (snd (os_path_split p))
       \<and> (d = [] \<or> last d = CHR ''/'')"
proof -
  let ?w = "takeWhile (\<lambda>d. d \<noteq> CHR ''/'') (rev p)"
  let ?r = "dropWhile (\<lambda>d. d \<noteq> CHR ''/'') (rev p)"
  have "rev p = ?w @ ?r" by simp
  then have p: "p = rev ?r @ rev ?w" by (metis rev_append rev_rev_ident)
  have a: "CHR ''/'' \<notin> set (rev ?w)" by (auto dest: set_takeWhileD)
  have b: "rev ?r = [] \<or> last (rev ?r) = CHR ''/''"
  proof (cases "?r = []")
    case True then show ?thesis by simp
  next
    case False
    then have "hd ?r = CHR ''/''" using hd_dropWhile [of "\<lambda>d. d \<noteq> CHR ''/''" "rev p"] by simp
    with False show ?thesis by (simp add: last_rev)
  qed
  from p a b show ?thesis unfolding snd_os_path_split by blast
qed

lemma loop_cong:
  assumes "\<And>t n x. oc t (PutFile n x) = oc' t (PutFile n x)"
  shows "for_x_in_files oc c xs t res = for_x_in_files oc' c xs t res"
  by (induction xs arbitrary: t res) (simp_all add: assms Let_def split: sum.splits)

lemma loop_raises:
  "for_x_in_files oc c xs t res = (t', Inl e) \<Longrightarrow> xs \<noteq> [] \<and> t' \<noteq> [] \<and> is_put (last t')"
  by (induction xs arbitrary: t res) (auto simp: Let_def is_put_def split: sum.splits)

lemma loop_returns:
  "for_x_in_files oc c xs t res = (t', Inr r) \<Longrightarrow> (xs = [] \<and> r = res \<and> t' = t) \<or> (xs \<noteq> [] \<and> r \<noteq> None)"
  by (induction xs arbitrary: t res) (auto simp: Let_def split: sum.splits)

lemmas run_simps =
  upload_files_to_owncloud_def session_def put_answer_def put_events_def owncloud_name_def
  uploading_def os_path_split_def rfind_def rstrip_def Let_def

lemma loop_trace_extends: "\<exists>u. fst (for_x_in_files oc c xs t res) = t @ u"
proof (induction xs arbitrary: t res)
  case Nil
  then show ?case by simp
next
  case (Cons x xs)
  show ?case
  proof (cases "oc (t @ [Print (uploading c x)]) (PutFile (owncloud_name c x) x)")
    case (Inl e)
    then show ?thesis by (simp add: Let_def)
  next
    case (Inr r)
    from Cons.IH [of "(t @ [Print (uploading c x)]) @ [PutFile (owncloud_name c x) x]" "Some r"]
    obtain u where "fst (for_x_in_files oc c xs ((t @ [Print (uploading c x)]) @ [PutFile (owncloud_name c x) x]) (Some r))
        = ((t @ [Print (uploading c x)]) @ [PutFile (owncloud_name c x) x]) @ u" by blast
    with Inr show ?thesis by (simp add: Let_def)
  qed
qed

lemma loop_first:
  "xs \<noteq> [] \<Longrightarrow>
     take (length t + 2) (fst (for_x_in_files oc c xs t res)) = t @ put_events c (hd xs)"
proof (cases xs)
  case Nil
  assume "xs \<noteq> []" with Nil show ?thesis by simp
next
  case (Cons x ys)
  show ?thesis
  proof (cases "oc (t @ [Print (uploading c x)]) (PutFile (owncloud_name c x) x)")
    case (Inl e)
    with Cons show ?thesis by (simp add: Let_def put_events_def)
  next
    case (Inr r)
    from loop_trace_extends [of oc c ys "t @ put_events c x" "Some r"]
    obtain u where "fst (for_x_in_files oc c ys (t @ put_events c x) (Some r)) = (t @ put_events c x) @ u"
      by blast
    with Inr Cons show ?thesis by (simp add: Let_def put_events_def)
  qed
qed

text \<open>
  C1: when the put of the file at position \<open>i\<close> raises (the login and the puts before
  it having succeeded), the operation raises that exception. The trace ends with the
  failed put: the files up to position \<open>i\<close> have been put, in order, no later file
  is attempted, and nothing is deleted from the remote.
\<close>

theorem put_failure_aborts_batch:
  assumes login: "oc [Client ''https://oeawcloud.oeaw.ac.at''] (Login user pw) = Inr r0"
    and i: "i < length files"
    and earlier: "\<forall>j<i. \<exists>r. put_answer oc folder files (session user pw folder) j = Inr r"
    and fails: "put_answer oc folder files (session user pw folder) i = Inl e"
  shows "upload_files_to_owncloud oc files user pw folder =
           (session user pw folder @ concat (map (put_events folder) (take (Suc i) files)), Inl e)
         \<and> filter is_put (fst (upload_files_to_owncloud oc files user pw folder)) =
             map (\<lambda>x. PutFile (owncloud_name folder x) x) (take (Suc i) files)
         \<and> \<not> list_ex is_delete (fst (upload_files_to_owncloud oc files user pw folder))"
proof -
  have run: "upload_files_to_owncloud oc files user pw folder =
      (session user pw folder @ concat (map (put_events folder) (take (Suc i) files)), Inl e)"
    using login by (simp add: upload_login_ok loop_fail [OF i earlier fails])
  show ?thesis
    by (simp only: run fst_conv filter_append filter_put_events filter_put_session
          list_ex_append no_delete_session no_delete_put_events) simp
qed

theorem put_failure_aborts_batch_witness:
  "full_disk [Client ''https://oeawcloud.oeaw.ac.at''] (Login ''u'' ''p'') = Inr True
   \<and> (1::nat) < length [''/tmp/a.txt'', ''/tmp/b.txt'', ''/tmp/c.txt'']
   \<and> put_answer full_disk ''pfp-data'' [''/tmp/a.txt'', ''/tmp/b.txt'', ''/tmp/c.txt'']
        (session ''u'' ''p'' ''pfp-data'') 0 = Inr True
   \<and> put_answer full_disk ''pfp-data'' [''/tmp/a.txt'', ''/tmp/b.txt'', ''/tmp/c.txt'']
        (session ''u'' ''p'' ''pfp-data'') 1 = Inl (HTTPResponseError 507)
   \<and> upload_files_to_owncloud full_disk [''/tmp/a.txt'', ''/tmp/b.txt'', ''/tmp/c.txt'']
        ''u'' ''p'' ''pfp-data'' =
       ([Client ''https://oeawcloud.oeaw.ac.at'', Login ''u'' ''p'', Mkdir ''pfp-data'',
         Print ''uploading a.txt to pfp-data/a.txt'', PutFile ''pfp-data/a.txt'' ''/tmp/a.txt'',
         Print ''uploading b.txt to pfp-data/b.txt'', PutFile ''pfp-data/b.txt'' ''/tmp/b.txt''],
        Inl (HTTPResponseError 507))"
proof -
  let ?files = "[''/tmp/a.txt'', ''/tmp/b.txt'', ''/tmp/c.txt'']"
  have h1: "full_disk [Client ''https://oeawcloud.oeaw.ac.at''] (Login ''u'' ''p'') = Inr True"
    by (simp add: full_disk_def)
  have h2: "(1::nat) < length ?files" by simp
  have h3: "put_answer full_disk ''pfp-data'' ?files (session ''u'' ''p'' ''pfp-data'') 0 = Inr True"
    by (simp add: full_disk_def run_simps)
  have h3': "\<forall>j<1. \<exists>r. put_answer full_disk ''pfp-data'' ?files (session ''u'' ''p'' ''pfp-data'') j = Inr r"
    using h3 by auto
  have h4: "put_answer full_disk ''pfp-data'' ?files (session ''u'' ''p'' ''pfp-data'') 1
      = Inl (HTTPResponseError 507)"
    by (simp add: full_disk_def run_simps)
  from put_failure_aborts_batch [where oc = full_disk and user = "''u''" and pw = "''p''"
      and folder = "''pfp-data''" and files = "?files" and i = 1, OF h1 h2 h3' h4]
  have "upload_files_to_owncloud full_disk ?files ''u'' ''p'' ''pfp-data'' =
      (session ''u'' ''p'' ''pfp-data'' @ concat (map (put_events ''pfp-data'') (take (Suc 1) ?files)),
       Inl (HTTPResponseError 507))" by blast
  then have "upload_files_to_owncloud full_disk ?files ''u'' ''p'' ''pfp-data'' =
       ([Client ''https://oeawcloud.oeaw.ac.at'', Login ''u'' ''p'', Mkdir ''pfp-data'',
         Print ''uploading a.txt to pfp-data/a.txt'', PutFile ''pfp-data/a.txt'' ''/tmp/a.txt'',
         Print ''uploading b.txt to pfp-data/b.txt'', PutFile ''pfp-data/b.txt'' ''/tmp/b.txt''],
        Inl (HTTPResponseError 507))"
    by (simp add: session_def put_events_def owncloud_name_def uploading_def os_path_split_def
          rfind_def rstrip_def)
  with h1 h2 h3 h4 show ?thesis by blast
qed

text \<open>
  C9: when the login raises, the operation raises the same exception; the trace ends
  with the login call, so no collection is created and no file is put.
\<close>

theorem login_failure_aborts:
  assumes "oc [Client ''https://oeawcloud.oeaw.ac.at''] (Login user pw) = Inl e"
  shows "upload_files_to_owncloud oc files user pw folder =
           ([Client ''https://oeawcloud.oeaw.ac.at'', Login user pw], Inl e)
         \<and> \<not> list_ex is_put (fst (upload_files_to_owncloud oc files user pw folder))"
  using assms by (simp add: upload_files_to_owncloud_def is_put_def)


theorem login_failure_aborts_witness:
  "bad_password [Client ''https://oeawcloud.oeaw.ac.at''] (Login ''u'' ''p'')
     = Inl (HTTPResponseError 401)
   \<and> upload_files_to_owncloud bad_password [''/tmp/a.txt'', ''/tmp/b.txt''] ''u'' ''p'' ''pfp-data''
     = ([Client ''https://oeawcloud.oeaw.ac.at'', Login ''u'' ''p''], Inl (HTTPResponseError 401))"
proof -
  have h: "bad_password [Client ''https://oeawcloud.oeaw.ac.at''] (Login ''u'' ''p'')
      = Inl (HTTPResponseError 401)"
    by (simp add: bad_password_def)
  from login_failure_aborts [where oc = bad_password and user = "''u''" and pw = "''p''", OF h] h
  show ?thesis by blast
qed

text \<open>
  C3: for a non-empty file list on which every put succeeds (after a successful
  login), the trace after the session events is, file by file in input order, the
  print and the put of that file under the name \<open>folder/tail\<close>, where \<open>tail\<close> is what
  follows the last slash of the local path; the value returned is the answer to the
  last put, whatever the earlier puts answered.
\<close>

theorem uploads_in_order_return_last:
  assumes login: "oc [Client ''https://oeawcloud.oeaw.ac.at''] (Login user pw) = Inr r0"
    and nonempty: "files \<noteq> []"
    and all_ok: "\<forall>j<length files. \<exists>r. put_answer oc folder files (session user pw folder) j = Inr r"
    and last_ok: "put_answer oc folder files (session user pw folder) (length files - 1) = Inr r"
  shows "upload_files_to_owncloud oc files user pw folder =
           (session user pw folder @ concat (map (put_events folder) files), Inr r)
         \<and> filter is_put (fst (upload_files_to_owncloud oc files user pw folder)) =
             map (\<lambda>x. PutFile (folder @ ''/'' @ snd (os_path_split x)) x) files
         \<and> (\<forall>x. \<exists>d. x = d @ snd (os_path_split x) \<and> CHR ''/'' \<notin> set (snd (os_path_split x))
                  \<and> (d = [] \<or> last d = CHR ''/''))"
proof -
  have run: "upload_files_to_owncloud oc files user pw folder =
      (session user pw folder @ concat (map (put_events folder) files), Inr r)"
    using login by (simp add: upload_login_ok loop_all_ok [OF all_ok nonempty last_ok])
  have puts: "filter is_put (fst (upload_files_to_owncloud oc files user pw folder)) =
      map (\<lambda>x. PutFile (folder @ ''/'' @ snd (os_path_split x)) x) files"
    by (simp only: run fst_conv filter_append filter_put_events filter_put_session)
       (simp add: owncloud_name_def)
  from run puts os_path_split_tail show ?thesis by blast
qed

theorem uploads_in_order_return_last_witness:
  "counting [Client ''https://oeawcloud.oeaw.ac.at''] (Login ''u'' ''p'') = Inr 1
   \<and> [''/tmp/a.txt'', ''b.txt'', ''/home/u/c.d/e.json''] \<noteq> []
   \<and> put_answer counting ''pfp-data'' [''/tmp/a.txt'', ''b.txt'', ''/home/u/c.d/e.json'']
        (session ''u'' ''p'' ''pfp-data'') 0 = Inr 4
   \<and> put_answer counting ''pfp-data'' [''/tmp/a.txt'', ''b.txt'', ''/home/u/c.d/e.json'']
        (session ''u'' ''p'' ''pfp-data'') 1 = Inr 6
   \<and> put_answer counting ''pfp-data'' [''/tmp/a.txt'', ''b.txt'', ''/home/u/c.d/e.json'']
        (session ''u'' ''p'' ''pfp-data'') 2 = Inr 8
   \<and> upload_files_to_owncloud counting [''/tmp/a.txt'', ''b.txt'', ''/home/u/c.d/e.json'']
        ''u'' ''p'' ''pfp-data'' =
       ([Client ''https://oeawcloud.oeaw.ac.at'', Login ''u'' ''p'', Mkdir ''pfp-data'',
         Print ''uploading a.txt to pfp-data/a.txt'', PutFile ''pfp-data/a.txt'' ''/tmp/a.txt'',
         Print ''uploading b.txt to pfp-data/b.txt'', PutFile ''pfp-data/b.txt'' ''b.txt'',
         Print ''uploading e.json to pfp-data/e.json'',
         PutFile ''pfp-data/e.json'' ''/home/u/c.d/e.json''],
        Inr 8)"
proof -
  let ?files = "[''/tmp/a.txt'', ''b.txt'', ''/home/u/c.d/e.json'']"
  have h1: "counting [Client ''https://oeawcloud.oeaw.ac.at''] (Login ''u'' ''p'') = Inr 1"
    by (simp add: counting_def)
  have h2: "?files \<noteq> []" by simp
  have a0: "put_answer counting ''pfp-data'' ?files (session ''u'' ''p'' ''pfp-data'') 0 = Inr 4"
    by (simp add: counting_def put_answer_def session_def)
  have a1: "put_answer counting ''pfp-data'' ?files (session ''u'' ''p'' ''pfp-data'') 1 = Inr 6"
    by (simp add: counting_def put_answer_def session_def put_events_def)
  have a2: "put_answer counting ''pfp-data'' ?files (session ''u'' ''p'' ''pfp-data'') 2 = Inr 8"
    by (simp add: counting_def put_answer_def session_def put_events_def)
  have h3: "\<forall>j<length ?files. \<exists>r. put_answer counting ''pfp-data'' ?files
      (session ''u'' ''p'' ''pfp-data'') j = Inr r"
  proof (intro allI impI)
    fix j assume "j < length ?files"
    then have "j = 0 \<or> j = 1 \<or> j = 2" by auto
    with a0 a1 a2 show "\<exists>r. put_answer counting ''pfp-data'' ?files
      (session ''u'' ''p'' ''pfp-data'') j = Inr r" by auto
  qed
  have h4: "put_answer counting ''pfp-data'' ?files (session ''u'' ''p'' ''pfp-data'')
      (length ?files - 1) = Inr 8"
    using a2 by (simp add: numeral_2_eq_2)
  from uploads_in_order_return_last [where oc = counting and user = "''u''" and pw = "''p''"
      and folder = "''pfp-data''" and files = "?files", OF h1 h2 h3 h4]
  have "upload_files_to_owncloud counting ?files ''u'' ''p'' ''pfp-data'' =
      (session ''u'' ''p'' ''pfp-data'' @ concat (map (put_events ''pfp-data'') ?files), Inr 8)"
    by blast
  then have "upload_files_to_owncloud counting ?files ''u'' ''p'' ''pfp-data'' =
       ([Client ''https://oeawcloud.oeaw.ac.at'', Login ''u'' ''p'', Mkdir ''pfp-data'',
         Print ''uploading a.txt to pfp-data/a.txt'', PutFile ''pfp-data/a.txt'' ''/tmp/a.txt'',
         Print ''uploading b.txt to pfp-data/b.txt'', PutFile ''pfp-data/b.txt'' ''b.txt'',
         Print ''uploading e.json to pfp-data/e.json'',
         PutFile ''pfp-data/e.json'' ''/home/u/c.d/e.json''],
        Inr 8)"
    by (simp add: session_def put_events_def owncloud_name_def uploading_def os_path_split_def
          rfind_def rstrip_def)
  with h1 h2 a0 a1 a2 show ?thesis by blast
qed

text \<open>
  C2: when the creation of the collection raises, whatever the exception, the run is
  the one of a remote on which the creation succeeds: the trace goes on after the
  \<open>Mkdir\<close> event with the put of the first file, and an exception that the operation
  raises comes from a put (or, without files, from the unbound \<open>result\<close>), never
  from the creation step.
\<close>

theorem mkdir_failure_is_suppressed:
  assumes login: "oc [Client ''https://oeawcloud.oeaw.ac.at''] (Login user pw) = Inr r0"
    and mkdir: "oc [Client ''https://oeawcloud.oeaw.ac.at'', Login user pw] (Mkdir folder) = Inl e"
  shows "upload_files_to_owncloud oc files user pw folder =
           upload_files_to_owncloud (\<lambda>t c. if c = Mkdir folder then Inr r1 else oc t c)
             files user pw folder
         \<and> take 3 (fst (upload_files_to_owncloud oc files user pw folder)) = session user pw folder
         \<and> (files \<noteq> [] \<longrightarrow>
              take 5 (fst (upload_files_to_owncloud oc files user pw folder)) =
                session user pw folder @ put_events folder (hd files))
         \<and> (\<forall>e'. snd (upload_files_to_owncloud oc files user pw folder) = Inl e' \<longrightarrow>
              (files = [] \<and> e' = UnboundLocalError)
              \<or> (files \<noteq> [] \<and> is_put (last (fst (upload_files_to_owncloud oc files user pw folder)))))"
proof -
  let ?oc' = "\<lambda>t c. if c = Mkdir folder then Inr r1 else oc t c"
  let ?loop = "for_x_in_files oc folder files (session user pw folder) None"
  have login': "?oc' [Client ''https://oeawcloud.oeaw.ac.at''] (Login user pw) = Inr r0"
    using login by simp
  have same: "for_x_in_files ?oc' folder files (session user pw folder) None = ?loop"
    by (rule loop_cong) simp
  have A: "upload_files_to_owncloud oc files user pw folder =
      upload_files_to_owncloud ?oc' files user pw folder"
    by (simp add: upload_login_ok [of ?oc' user pw r0, OF login']
          upload_login_ok [of oc user pw r0, OF login] same)
  have fst_run: "fst (upload_files_to_owncloud oc files user pw folder) = fst ?loop"
    using login by (simp add: upload_login_ok split: prod.splits sum.splits option.splits)
  from loop_trace_extends [of oc folder files "session user pw folder" None]
  obtain u where u: "fst ?loop = session user pw folder @ u" by blast
  have B: "take 3 (fst (upload_files_to_owncloud oc files user pw folder)) = session user pw folder"
    by (simp add: fst_run u) (simp add: session_def)
  have C: "files \<noteq> [] \<longrightarrow> take 5 (fst (upload_files_to_owncloud oc files user pw folder)) =
      session user pw folder @ put_events folder (hd files)"
  proof
    assume "files \<noteq> []"
    have five: "length (session user pw folder) + 2 = 5" by (simp add: session_def)
    from loop_first [OF \<open>files \<noteq> []\<close>, of "session user pw folder" oc folder None]
    show "take 5 (fst (upload_files_to_owncloud oc files user pw folder)) =
      session user pw folder @ put_events folder (hd files)"
      unfolding five by (simp add: fst_run)
  qed
  have D: "\<forall>e'. snd (upload_files_to_owncloud oc files user pw folder) = Inl e' \<longrightarrow>
      (files = [] \<and> e' = UnboundLocalError)
      \<or> (files \<noteq> [] \<and> is_put (last (fst (upload_files_to_owncloud oc files user pw folder))))"
  proof (intro allI impI)
    fix e'
    assume raised: "snd (upload_files_to_owncloud oc files user pw folder) = Inl e'"
    obtain t res where loop: "?loop = (t, res)" by (cases ?loop)
    show "(files = [] \<and> e' = UnboundLocalError)
      \<or> (files \<noteq> [] \<and> is_put (last (fst (upload_files_to_owncloud oc files user pw folder))))"
    proof (cases res)
      case (Inl e'')
      with loop loop_raises [of oc folder files "session user pw folder" None t e'']
      have "files \<noteq> [] \<and> is_put (last t)" by simp
      with loop show ?thesis by (simp add: fst_run)
    next
      case (Inr v)
      with loop loop_returns [of oc folder files "session user pw folder" None t v]
      have cases: "(files = [] \<and> v = None) \<or> (files \<noteq> [] \<and> v \<noteq> None)" by auto
      from raised loop Inr login have "v = None \<and> e' = UnboundLocalError"
        by (cases v) (simp_all add: upload_login_ok)
      with cases show ?thesis by auto
    qed
  qed
  from A B C D show ?thesis by blast
qed

theorem mkdir_failure_is_suppressed_witness:
  "existing_folder [Client ''https://oeawcloud.oeaw.ac.at''] (Login ''u'' ''p'') = Inr True
   \<and> existing_folder [Client ''https://oeawcloud.oeaw.ac.at'', Login ''u'' ''p'']
        (Mkdir ''pfp-data'') = Inl (HTTPResponseError 405)
   \<and> upload_files_to_owncloud existing_folder [''/tmp/a.txt''] ''u'' ''p'' ''pfp-data'' =
       ([Client ''https://oeawcloud.oeaw.ac.at'', Login ''u'' ''p'', Mkdir ''pfp-data'',
         Print ''uploading a.txt to pfp-data/a.txt'', PutFile ''pfp-data/a.txt'' ''/tmp/a.txt''],
        Inr True)
   \<and> take 5 (fst (upload_files_to_owncloud existing_folder [''/tmp/a.txt''] ''u'' ''p'' ''pfp-data''))
       = session ''u'' ''p'' ''pfp-data'' @ put_events ''pfp-data'' ''/tmp/a.txt''"
proof -
  have h1: "existing_folder [Client ''https://oeawcloud.oeaw.ac.at''] (Login ''u'' ''p'') = Inr True"
    by (simp add: existing_folder_def)
  have h2: "existing_folder [Client ''https://oeawcloud.oeaw.ac.at'', Login ''u'' ''p'']
        (Mkdir ''pfp-data'') = Inl (HTTPResponseError 405)"
    by (simp add: existing_folder_def)
  have run: "upload_files_to_owncloud existing_folder [''/tmp/a.txt''] ''u'' ''p'' ''pfp-data'' =
       ([Client ''https://oeawcloud.oeaw.ac.at'', Login ''u'' ''p'', Mkdir ''pfp-data'',
         Print ''uploading a.txt to pfp-data/a.txt'', PutFile ''pfp-data/a.txt'' ''/tmp/a.txt''],
        Inr True)"
    by (simp add: existing_folder_def run_simps)
  from mkdir_failure_is_suppressed [where oc = existing_folder and user = "''u''" and pw = "''p''"
      and folder = "''pfp-data''" and files = "[''/tmp/a.txt'']", OF h1 h2]
  have "take 5 (fst (upload_files_to_owncloud existing_folder [''/tmp/a.txt''] ''u'' ''p'' ''pfp-data''))
       = session ''u'' ''p'' ''pfp-data'' @ put_events ''pfp-data'' ''/tmp/a.txt''"
    by simp
  with h1 h2 run show ?thesis by blast
qed

text \<open>
  C10: for an empty file list the operation never returns a value and puts no file;
  when the login succeeds it performs the login and the creation attempt and then
  raises \<open>UnboundLocalError\<close> at \<^verbatim>\<open>return result\<close>.
\<close>

theorem empty_file_list_unbound_result:
  "(\<forall>r. snd (upload_files_to_owncloud oc [] user pw folder) \<noteq> Inr r)
   \<and> \<not> list_ex is_put (fst (upload_files_to_owncloud oc [] user pw folder))
   \<and> (\<forall>r0. oc [Client ''https://oeawcloud.oeaw.ac.at''] (Login user pw) = Inr r0 \<longrightarrow>
         upload_files_to_owncloud oc [] user pw folder =
           (session user pw folder, Inl UnboundLocalError))"
  by (simp add: upload_files_to_owncloud_def session_def is_put_def Let_def split: sum.splits)

theorem empty_file_list_unbound_result_witness:
  "counting [Client ''https://oeawcloud.oeaw.ac.at''] (Login ''u'' ''p'') = Inr 1
   \<and> upload_files_to_owncloud counting [] ''u'' ''p'' ''pfp-data'' =
       ([Client ''https://oeawcloud.oeaw.ac.at'', Login ''u'' ''p'', Mkdir ''pfp-data''],
        Inl UnboundLocalError)"
proof -
  have h: "counting [Client ''https://oeawcloud.oeaw.ac.at''] (Login ''u'' ''p'') = Inr 1"
    by (simp add: counting_def)
  from empty_file_list_unbound_result [where oc = counting and user = "''u''" and pw = "''p''"
      and folder = "''pfp-data''"] h
  show ?thesis by (simp add: session_def)
qed

section \<open>Properties of the sheet fetch\<close>

lemmas csv_simps =
  read_csv_def plain_csv_def csv_lines_def plain_name_def plain_char_def plain_int_def
  plain_digits_def is_digit_def int_value_def digits_value_def













text \<open>
  C5: for every sheet identifier the trace holds exactly one GET, of the fixed base
  URL followed by the identifier and \<^verbatim>\<open>&output=csv\<close>; when the server answers,
  whatever the status code, the status is printed and the outcome is the outcome of
  the CSV parser on the body.
\<close>

theorem gsheet_single_get_ignores_status:
  "filter is_get (fst (gsheet_to_df net pd sheet_id)) =
     [HttpGet (''https://docs.google.com/spreadsheet/ccc?key='' @ sheet_id @ ''&output=csv'')]
   \<and> (\<forall>r. net (''https://docs.google.com/spreadsheet/ccc?key='' @ sheet_id @ ''&output=csv'') = Inr r
          \<longrightarrow> gsheet_to_df net pd sheet_id =
                ([HttpGet (''https://docs.google.com/spreadsheet/ccc?key='' @ sheet_id @ ''&output=csv''),
                  Print (str_nat (status_code r))],
                 read_csv pd (content r)))"
  by (simp add: gsheet_to_df_def is_get_def Let_def split: sum.splits)

theorem gsheet_single_get_ignores_status_witness:
  "error_page ''https://docs.google.com/spreadsheet/ccc?key=abc&output=csv''
     = Inr \<lparr>status_code = 404, content = ''<html>404</html>''\<rparr>
   \<and> gsheet_to_df error_page no_pandas ''abc'' =
       ([HttpGet ''https://docs.google.com/spreadsheet/ccc?key=abc&output=csv'', Print ''404''],
        Inr \<lparr>columns = [''<html>404</html>''], rows = []\<rparr>)"
proof -
  have h: "error_page (''https://docs.google.com/spreadsheet/ccc?key='' @ ''abc'' @ ''&output=csv'')
     = Inr \<lparr>status_code = 404, content = ''<html>404</html>''\<rparr>"
    by (simp add: error_page_def)
  have s: "str_nat 404 = ''404''"
    by code_simp
  have p: "read_csv no_pandas ''<html>404</html>'' = Inr \<lparr>columns = [''<html>404</html>''], rows = []\<rparr>"
    by (simp add: csv_simps)
  from gsheet_single_get_ignores_status [of error_page no_pandas "''abc''"] h
  have "gsheet_to_df error_page no_pandas ''abc'' =
      ([HttpGet (''https://docs.google.com/spreadsheet/ccc?key='' @ ''abc'' @ ''&output=csv''),
        Print (str_nat (status_code \<lparr>status_code = 404, content = ''<html>404</html>''\<rparr>))],
       read_csv no_pandas (content \<lparr>status_code = 404, content = ''<html>404</html>''\<rparr>))"
    by blast
  with h s p show ?thesis by simp
qed

text \<open>
  C6: for the body \<^verbatim>\<open>a,b\n1,2\n3,4\n\<close> the result has the columns \<open>a\<close> and \<open>b\<close>,
  from the first line, and the two rows \<open>1, 2\<close> and \<open>3, 4\<close> in the order of the body.
\<close>

theorem gsheet_two_rows:
  "snd (gsheet_to_df
          (\<lambda>url. Inr \<lparr>status_code = s, content = ''a,b'' @ [NL] @ ''1,2'' @ [NL] @ ''3,4'' @ [NL]\<rparr>)
          pd sheet_id) =
     Inr \<lparr>columns = [''a'', ''b''], rows = [[CInt 1, CInt 2], [CInt 3, CInt 4]]\<rparr>
   \<and> to_records \<lparr>columns = [''a'', ''b''], rows = [[CInt 1, CInt 2], [CInt 3, CInt 4]]\<rparr> =
       [[(''a'', CInt 1), (''b'', CInt 2)], [(''a'', CInt 3), (''b'', CInt 4)]]"
  by (simp add: gsheet_to_df_def to_records_def csv_simps)

theorem gsheet_two_rows_witness:
  "snd (gsheet_to_df
          (\<lambda>url. Inr \<lparr>status_code = 200, content = ''a,b'' @ [NL] @ ''1,2'' @ [NL] @ ''3,4'' @ [NL]\<rparr>)
          no_pandas ''abc'') =
     Inr \<lparr>columns = [''a'', ''b''], rows = [[CInt 1, CInt 2], [CInt 3, CInt 4]]\<rparr>"
  using gsheet_two_rows [of 200 no_pandas "''abc''"] by blast




section \<open>Properties of the decoder\<close>

lemma scanstring_plain:
  "plain_text s \<Longrightarrow> scanstring (s @ CHR 0x22 # r) = Value s r"
  by (induction s) (auto simp: plain_text_def)

lemma of_char_digit: "k < 10 \<Longrightarrow> (of_char (char_of (48 + k :: nat)) :: nat) = 48 + k"
  by simp

lemma is_digit_char_of: "k < 10 \<Longrightarrow> is_digit (char_of (48 + k :: nat))"
  by (simp add: is_digit_def)

lemma char_of_48: "char_of (48 :: nat) = CHR ''0''"
  by (simp add: char_of_eq_iff take_bit_eq_mod)

lemma digit_not_0: "0 < k \<Longrightarrow> k < 10 \<Longrightarrow> char_of (48 + k :: nat) \<noteq> CHR ''0''"
proof
  assume k: "0 < k" "k < 10" and "char_of (48 + k) = CHR ''0''"
  then have "(of_char (char_of (48 + k)) :: nat) = of_char (CHR ''0'')" by simp
  with k show False by simp
qed

lemma str_nat_digits: "list_all is_digit (str_nat n)"
proof (induction n rule: str_nat.induct)
  case (1 n)
  show ?case
  proof (cases "n < 10")
    case True
    then show ?thesis by (subst str_nat.simps) (simp add: is_digit_char_of)
  next
    case False
    with 1 show ?thesis by (subst str_nat.simps) (simp add: is_digit_char_of)
  qed
qed

lemma str_nat_nonempty: "str_nat n \<noteq> []"
  by (subst str_nat.simps) simp

lemma digits_value_snoc:
  "digits_value (ds @ [c]) = 10 * digits_value ds + (int (of_char c) - 48)"
  by (simp add: digits_value_def)

lemma digits_value_str_nat: "digits_value (str_nat n) = int n"
proof (induction n rule: str_nat.induct)
  case (1 n)
  show ?case
  proof (cases "n < 10")
    case True
    then show ?thesis by (subst str_nat.simps) (simp add: digits_value_def)
  next
    case False
    with 1 have "digits_value (str_nat (n div 10)) = int (n div 10)" by simp
    with False show ?thesis
      apply (subst str_nat.simps)
      apply (simp add: digits_value_snoc)
      apply arith
      done
  qed
qed

lemma hd_str_nat: "0 < n \<Longrightarrow> hd (str_nat n) \<noteq> CHR ''0''"
proof (induction n rule: str_nat.induct)
  case (1 n)
  show ?case
  proof (cases "n < 10")
    case True
    with 1(2) show ?thesis by (subst str_nat.simps) (simp add: digit_not_0)
  next
    case False
    then have "0 < n div 10" by simp
    with 1(1) False have "hd (str_nat (n div 10)) \<noteq> CHR ''0''" by simp
    with False show ?thesis
      by (subst str_nat.simps) (simp add: str_nat_nonempty)
  qed
qed

lemma str_nat_0: "str_nat 0 = ''0''"
  by (subst str_nat.simps) (simp add: char_of_48)

lemma length_str_nat: "n < 10 ^ k \<Longrightarrow> 0 < k \<Longrightarrow> length (str_nat n) \<le> k"
proof (induction n arbitrary: k rule: str_nat.induct)
  case (1 n)
  show ?case
  proof (cases "n < 10")
    case True
    with 1(3) show ?thesis by (subst str_nat.simps) simp
  next
    case False
    obtain j where j: "k = Suc j" using 1(3) by (cases k) auto
    have "0 < j"
    proof (rule ccontr)
      assume "\<not> 0 < j"
      with j 1(2) False show False by simp
    qed
    moreover have "n div 10 < 10 ^ j" using 1(2) j by (simp add: less_mult_imp_div_less mult.commute)
    ultimately have "length (str_nat (n div 10)) \<le> j" using 1(1) False by simp
    with False j show ?thesis by (subst str_nat.simps) simp
  qed
qed

lemma closes_facts:
  assumes "closes r"
  shows "\<not> is_float r" and "takeWhile is_digit r = []" and "dropWhile is_digit r = r"
    and "skip_ws r = r" and "r \<noteq> []"
  using assms
  by (auto simp: closes_def is_float_def is_digit_def skip_ws_def is_ws_def split: list.splits)

lemma takeWhile_digits:
  "list_all is_digit ds \<Longrightarrow> closes r \<Longrightarrow> takeWhile is_digit (ds @ r) = ds"
  by (induction ds) (auto simp: closes_facts)

lemma dropWhile_digits:
  "list_all is_digit ds \<Longrightarrow> closes r \<Longrightarrow> dropWhile is_digit (ds @ r) = r"
  by (induction ds) (auto simp: closes_facts)

lemma match_number_str_nat:
  assumes "n < 10 ^ 18" and "closes r"
  shows "match_number (str_nat n @ r) = Some (Value (JInt (int n)) r)"
    and "match_number (CHR ''-'' # str_nat n @ r) = Some (Value (JInt (- int n)) r)"
proof -
  have len: "length (str_nat n) \<le> 18" using assms(1) by (simp add: length_str_nat)
  have nf: "\<not> is_float r" using assms(2) by (rule closes_facts)
  have num: "number neg (str_nat n) r =
      Value (JInt (if neg then - int n else int n)) r" for neg
    using len nf by (simp add: number_def digits_value_str_nat)
  obtain c ds where cds: "str_nat n = c # ds"
    using str_nat_nonempty [of n] by (cases "str_nat n") auto
  have digs: "is_digit c" "list_all is_digit ds"
    using str_nat_digits [of n] by (simp_all add: cds)
  have notminus: "c \<noteq> CHR ''-''" using digs(1) by (auto simp: is_digit_def)
  have core: "(if c = CHR ''0'' then Some (number neg ''0'' (ds @ r))
               else if is_digit c
                 then Some (number neg (c # takeWhile is_digit (ds @ r)) (dropWhile is_digit (ds @ r)))
               else None) = Some (number neg (str_nat n) r)" for neg
  proof (cases "n = 0")
    case True
    then have "c = CHR ''0''" "ds = []" using cds by (simp_all add: str_nat_0)
    then show ?thesis using True by (simp add: str_nat_0)
  next
    case False
    then have "c \<noteq> CHR ''0''" using hd_str_nat [of n] cds by simp
    then show ?thesis
      using digs assms(2) by (simp add: cds takeWhile_digits dropWhile_digits)
  qed
  show "match_number (str_nat n @ r) = Some (Value (JInt (int n)) r)"
    using core [of False] num [of False] notminus by (simp add: match_number_def cds)
  show "match_number (CHR ''-'' # str_nat n @ r) = Some (Value (JInt (- int n)) r)"
    using core [of True] num [of True] by (simp add: match_number_def cds)
qed

lemma match_number_str_int:
  assumes "\<bar>i\<bar> < 10 ^ 18" and "closes r"
  shows "match_number (str_int i @ r) = Some (Value (JInt i) r)"
proof (cases "i < 0")
  case True
  have "nat (- i) < 10 ^ 18" using assms(1) True by (simp add: nat_less_iff)
  from match_number_str_nat(2) [OF this assms(2)] True show ?thesis
    by (simp add: str_int_def)
next
  case False
  have "nat i < 10 ^ 18" using assms(1) False by (simp add: nat_less_iff)
  from match_number_str_nat(1) [OF this assms(2)] False show ?thesis
    by (simp add: str_int_def)
qed

lemma str_int_head:
  "\<exists>c s. str_int i = c # s \<and> (c = CHR ''-'' \<or> is_digit c)"
proof -
  obtain c ds where "str_nat (nat \<bar>i\<bar>) = c # ds"
    using str_nat_nonempty [of "nat \<bar>i\<bar>"] by (cases "str_nat (nat \<bar>i\<bar>)") auto
  moreover have "list_all is_digit (str_nat (nat \<bar>i\<bar>))" by (rule str_nat_digits)
  ultimately show ?thesis by (cases "i < 0") (auto simp: str_int_def abs_if)
qed

lemma scan_once_scalar:
  assumes "scalar v" and "closes r"
  shows "scan_once (Suc n) d (dumps_scalar v @ r) = Value v r"
proof (cases v)
  case JNull
  then show ?thesis by simp
next
  case (JBool b)
  then show ?thesis by simp
next
  case (JInt i)
  obtain c s where cs: "str_int i = c # s" "c = CHR ''-'' \<or> is_digit c"
    using str_int_head by blast
  have "match_number (c # s @ r) = Some (Value (JInt i) r)"
    using match_number_str_int [of i r] assms JInt by (simp add: cs)
  moreover have "c \<noteq> CHR 0x22" "c \<noteq> CHR ''{''" "c \<noteq> CHR ''[''" "c \<noteq> CHR ''n''"
    "c \<noteq> CHR ''t''" "c \<noteq> CHR ''f''"
    using cs(2) by (auto simp: is_digit_def)
  ultimately show ?thesis using JInt by (simp add: cs)
next
  case (JStr s)
  then show ?thesis using assms by (simp add: quote_def scanstring_plain)
qed (use assms in simp_all)

lemma dict_set_fresh: "k \<notin> fst ` set m \<Longrightarrow> dict_set m k v = m @ [(k, v)]"
  by (induction m) auto

lemma py_dict_from:
  "distinct (map fst (m @ ms)) \<Longrightarrow> foldl (\<lambda>m (k, v). dict_set m k v) m ms = m @ ms"
proof (induction ms arbitrary: m)
  case Nil
  then show ?case by simp
next
  case (Cons p ms)
  obtain k v where p: "p = (k, v)" by (cases p)
  have fresh: "k \<notin> fst ` set m" using Cons.prems by (auto simp: p)
  have "distinct (map fst ((m @ [(k, v)]) @ ms))" using Cons.prems by (simp add: p)
  from Cons.IH [OF this] fresh show ?case by (simp add: p dict_set_fresh)
qed

lemma py_dict_distinct: "distinct (map fst ms) \<Longrightarrow> py_dict ms = ms"
  using py_dict_from [of "[]" ms] by (simp add: py_dict_def)

lemma JSONObject_member:
  assumes "plain_text (fst m)" and "scalar (snd m)" and "closes r"
  shows "JSONObject (Suc (Suc n)) d acc (member_text m @ r) =
     (case r of
        y # r3 \<Rightarrow> if y = CHR ''}'' then Value (JDict (py_dict (acc @ [m]))) r3
                   else JSONObject (Suc n) d (acc @ [m]) (skip_ws r3))"
proof -
  obtain y r3 where r: "r = y # r3" "y = CHR '','' \<or> y = CHR ''}''"
    using assms(3) by (auto simp: closes_def split: list.splits)
  have str: "scanstring (fst m @ CHR 0x22 # CHR '':'' # CHR '' '' # dumps_scalar (snd m) @ r)
      = Value (fst m) (CHR '':'' # CHR '' '' # dumps_scalar (snd m) @ r)"
    using assms(1) by (rule scanstring_plain)
  obtain c s where cs: "dumps_scalar (snd m) @ r = c # s" "\<not> is_ws c"
  proof (cases "dumps_scalar (snd m)")
    case Nil
    with r that show ?thesis by (auto simp: is_ws_def)
  next
    case (Cons c s)
    have "\<not> is_ws c"
    proof (cases "snd m")
      case (JInt i)
      with Cons str_int_head [of i] show ?thesis by (auto simp: is_ws_def is_digit_def)
    qed (use Cons assms(2) in \<open>auto simp: is_ws_def quote_def split: if_splits\<close>)
    with Cons that show ?thesis by simp
  qed
  have ws: "skip_ws (CHR '' '' # dumps_scalar (snd m) @ r) = dumps_scalar (snd m) @ r"
    using cs by (simp add: skip_ws_def is_ws_def)
  have val: "scan_once (Suc n) d (dumps_scalar (snd m) @ r) = Value (snd m) r"
    using assms(2,3) by (rule scan_once_scalar)
  have wsr: "skip_ws r = r" using assms(3) by (rule closes_facts)
  have ws0: "skip_ws (CHR '':'' # t) = CHR '':'' # t" for t
    by (simp add: skip_ws_def is_ws_def)
  have step: "JSONObject (Suc (Suc n)) d acc (member_text m @ r) =
     (case skip_ws r of
        [] \<Rightarrow> Invalid
      | y # r3 \<Rightarrow>
          if y = CHR ''}'' then Value (JDict (py_dict (acc @ [m]))) r3
          else if y = CHR '','' then JSONObject (Suc n) d (acc @ [m]) (skip_ws r3)
          else Invalid)"
    apply (subst JSONObject.simps)
    apply (simp add: member_text_def quote_def str ws0 ws val del: JSONObject.simps scan_once.simps)
    apply (unfold prod.collapse)
    apply (rule refl)
    done
  show ?thesis
    unfolding step wsr using r by (auto simp del: JSONObject.simps scan_once.simps)
qed

lemma member_text_head: "\<exists>t. member_text m @ r = CHR 0x22 # t"
  by (simp add: member_text_def quote_def)

lemma members_text_head: "ms \<noteq> [] \<Longrightarrow> \<exists>t. members_text ms @ r = CHR 0x22 # t"
  by (induction ms rule: members_text.induct) (simp_all add: member_text_def quote_def)

lemma skip_ws_quote: "skip_ws (CHR 0x22 # t) = CHR 0x22 # t"
  by (simp add: skip_ws_def is_ws_def)

lemma skip_ws_space: "skip_ws (CHR '' '' # t) = skip_ws t"
  by (simp add: skip_ws_def is_ws_def)

lemma JSONObject_members:
  assumes "ms \<noteq> []" and "list_all (\<lambda>m. plain_text (fst m) \<and> scalar (snd m)) ms"
  shows "JSONObject (Suc (length ms) + n) d acc (members_text ms @ CHR ''}'' # r) =
           Value (JDict (py_dict (acc @ ms))) r"
  using assms
proof (induction ms arbitrary: acc rule: members_text.induct)
  case 1
  then show ?case by simp
next
  case (2 m)
  have "closes (CHR ''}'' # r)" by (simp add: closes_def)
  with 2 JSONObject_member [of m "CHR ''}'' # r" n d acc] show ?case
    by (simp del: JSONObject.simps scan_once.simps)
next
  case (3 m m' ms)
  let ?rest = "members_text (m' # ms) @ CHR ''}'' # r"
  have cl: "closes (CHR '','' # CHR '' '' # ?rest)" by (simp add: closes_def)
  obtain t where t: "?rest = CHR 0x22 # t"
    using members_text_head [of "m' # ms" "CHR ''}'' # r"] by auto
  have ws: "skip_ws (CHR '' '' # ?rest) = ?rest"
    by (simp only: skip_ws_space t skip_ws_quote)
  have first: "JSONObject (Suc (Suc (Suc (length ms) + n))) d acc
        (member_text m @ CHR '','' # CHR '' '' # ?rest) =
      JSONObject (Suc (Suc (length ms) + n)) d (acc @ [m]) ?rest"
    using 3(2,3) JSONObject_member [OF _ _ cl, of m "Suc (length ms) + n" d acc]
    by (simp add: ws del: JSONObject.simps scan_once.simps)
  have "JSONObject (Suc (length (m' # ms)) + n) d (acc @ [m]) ?rest =
      Value (JDict (py_dict ((acc @ [m]) @ m' # ms))) r"
    using 3 by (intro "3.IH") simp_all
  with first show ?case by (simp del: JSONObject.simps scan_once.simps)
qed

lemma scan_document:
  assumes "plain_document ms" and "length ms < n"
  shows "scan_once (Suc n) (Suc d) (document_text ms @ g) = Value (JDict ms) g"
proof (cases "ms = []")
  case True
  then show ?thesis by (simp add: document_text_def skip_ws_def is_ws_def)
next
  case False
  obtain t where t: "members_text ms @ CHR ''}'' # g = CHR 0x22 # t"
    using members_text_head [OF False] by blast
  obtain k where k: "n = Suc (length ms) + k"
    using assms(2) by (metis less_iff_Suc_add add_Suc)
  have plain: "list_all (\<lambda>m. plain_text (fst m) \<and> scalar (snd m)) ms"
    and dist: "distinct (map fst ms)"
    using assms(1) by (simp_all add: plain_document_def)
  have "scan_once (Suc n) (Suc d) (document_text ms @ g) =
      JSONObject n d [] (members_text ms @ CHR ''}'' # g)"
    by (simp add: document_text_def t skip_ws_quote del: JSONObject.simps)
  also have "\<dots> = Value (JDict (py_dict ([] @ ms))) g"
    unfolding k by (rule JSONObject_members [OF False plain])
  finally show ?thesis by (simp add: py_dict_distinct [OF dist])
qed

lemma length_members_text: "length ms \<le> length (members_text ms)"
  by (induction ms rule: members_text.induct) (simp_all add: member_text_def quote_def)

lemma decode_document_then:
  assumes "plain_document ms"
  shows "decode (document_text ms @ g) = (if skip_ws g = [] then Value (JDict ms) [] else Invalid)"
proof -
  let ?s = "document_text ms @ g"
  have "length ms < 2 * length ?s + 1"
    using length_members_text [of ms] by (simp add: document_text_def)
  from scan_document [OF assms this, of 99 g]
  have "scan_once (2 * length ?s + 2) 100 ?s = Value (JDict ms) g"
    by (simp del: scan_once.simps)
  moreover have "skip_ws ?s = ?s"
    by (simp add: document_text_def skip_ws_def is_ws_def)
  ultimately show ?thesis by (simp add: decode_def del: scan_once.simps)
qed

lemma json_loads_document:
  "plain_document ms \<Longrightarrow> json_loads lib (document_text ms) = Inr (JDict ms)"
  using decode_document_then [of ms "[]"] by (simp add: json_loads_def skip_ws_def)




















section \<open>Properties of the loader\<close>






end
